theory Spec2Isabelle
  imports Main
begin

section \<open>JavaScript values and built-ins used by the sources\<close>

text \<open>
  A JavaScript string is modelled as a \<^typ>\<open>string\<close>, one list element per code unit, so
  that \<open>length\<close> is the \<open>.length\<close> of the source and \<open>@\<close> is string concatenation.
  The only primitive values that reach the reducer and the renderer are strings and
  \<open>undefined\<close> (an absent property or an unassigned \<open>let\<close>).
\<close>

datatype jsval = Undefined | Str string

text \<open>The conversion applied by \<open>+\<close> when its left operand is a string.\<close>

definition ToString :: "jsval \<Rightarrow> string" where
  "ToString v = (case v of Undefined \<Rightarrow> ''undefined'' | Str s \<Rightarrow> s)"

text \<open>
  \<open>String.prototype.substr(start, length)\<close>: a negative start counts from the end, the
  length is clamped to the range from 0 to the size of the string, and nothing is ever raised.
\<close>

definition substr :: "string \<Rightarrow> int \<Rightarrow> int \<Rightarrow> string" where
  "substr s start len =
     (let sz = int (length s);
          intStart = (if start < 0 then max (sz + start) 0 else min start sz);
          intLength = min (max len 0) sz;
          intEnd = min (intStart + intLength) sz
      in take (nat (intEnd - intStart)) (drop (nat intStart) s))"

section \<open>Actions and the reducer (basic.js, lines 3-19)\<close>

text \<open>
  An action is an object with a \<open>type\<close> tag; \<open>char\<close> is \<open>undefined\<close> on the actions that
  carry no character, such as \<open>{ type: 'RANDOM' }\<close>.
\<close>

record Action =
  type :: string
  char :: jsval

definition insertCharacter :: "jsval \<Rightarrow> Action" where
  "insertCharacter c = \<lparr>type = ''CHARACTER_TYPED'', char = c\<rparr>"

text \<open>
  Modelled from the spec: \<open>removeCharacter\<close> is exported by the module \<open>./store\<close>, which is
  not among the sources; section 6 of the specification gives the action it builds,
  \<open>{type: "BACKSPACE"}\<close>.
\<close>

definition removeCharacter :: Action where
  "removeCharacter = \<lparr>type = ''BACKSPACE'', char = Undefined\<rparr>"

text \<open>
  The reducer. Its first parameter has the default value \<open>''\<close>, used when the argument is
  \<open>undefined\<close> (here \<open>None\<close>); the \<open>switch\<close> becomes a chain of tests in the order of the cases.
\<close>

definition reducer :: "string option \<Rightarrow> Action \<Rightarrow> string" where
  "reducer st action =
     (let state = (case st of None \<Rightarrow> [] | Some s \<Rightarrow> s)
      in if type action = ''CHARACTER_TYPED'' then state @ ToString (char action)
         else if type action = ''BACKSPACE'' then substr state 0 (int (length state) - 1)
         else state)"

section \<open>The store\<close>

text \<open>
  Modelled from the spec: the store is made by \<open>createStore\<close> of the redux library, which is
  not among the sources; section 4.1 of the specification gives its contract. The store
  owns one state value and the listeners, in the order of their registration.

  The listeners are functions of the program that change the program's own variables, so a
  listener is kept as a reference of type \<open>'l\<close> and the program says how a reference is
  called. The variables of a program extend the record of the store.
\<close>

record 'l Store =
  currentState :: string
  currentListeners :: "'l list"

text \<open>
  Modelled from the spec: the store is created once with the initial state that the
  reducer's default gives, that is the reducer's answer to an initialising action when the
  state is \<open>undefined\<close>.
\<close>

definition initialState :: string where
  "initialState = reducer None \<lparr>type = ''@@redux/INIT'', char = Undefined\<rparr>"

text \<open>Modelled from the spec: \<open>getState\<close> returns the current state, with no side effect.\<close>

definition getState :: "('l, 'z) Store_scheme \<Rightarrow> string" where
  "getState w = currentState w"

text \<open>
  Modelled from the spec: \<open>subscribe\<close> appends the listener; the function it returns removes
  that listener (the caller keeps the flag that makes a second call do nothing).
\<close>

definition subscribe :: "'l \<Rightarrow> ('l, 'z) Store_scheme \<Rightarrow> ('l, 'z) Store_scheme" where
  "subscribe l w = w\<lparr>currentListeners := currentListeners w @ [l]\<rparr>"

definition unsubscribe :: "'l \<Rightarrow> ('l, 'z) Store_scheme \<Rightarrow> ('l, 'z) Store_scheme" where
  "unsubscribe l w = w\<lparr>currentListeners := remove1 l (currentListeners w)\<rparr>"

text \<open>
  Modelled from the spec: \<open>dispatch\<close> computes the reducer on the current state and the
  action, replaces the current state, then calls every registered listener in the order of
  registration.
\<close>

definition dispatch ::
  "('l \<Rightarrow> ('l, 'z) Store_scheme \<Rightarrow> ('l, 'z) Store_scheme) \<Rightarrow> Action \<Rightarrow>
   ('l, 'z) Store_scheme \<Rightarrow> ('l, 'z) Store_scheme" where
  "dispatch call action w =
     (let w' = w\<lparr>currentState := reducer (Some (currentState w)) action\<rparr>
      in foldl (\<lambda>v l. call l v) w' (currentListeners w'))"

text \<open>A sequence of dispatches, and the value of \<open>getState()\<close> after each of them.\<close>

definition run ::
  "('l \<Rightarrow> ('l, 'z) Store_scheme \<Rightarrow> ('l, 'z) Store_scheme) \<Rightarrow> Action list \<Rightarrow>
   ('l, 'z) Store_scheme \<Rightarrow> ('l, 'z) Store_scheme" where
  "run call as w = foldl (\<lambda>v a. dispatch call a v) w as"

fun history ::
  "('l \<Rightarrow> ('l, 'z) Store_scheme \<Rightarrow> ('l, 'z) Store_scheme) \<Rightarrow> ('l, 'z) Store_scheme \<Rightarrow>
   Action list \<Rightarrow> string list" where
  "history call w [] = []"
| "history call w (a # as) = getState (dispatch call a w) # history call (dispatch call a w) as"

section \<open>The console renderers (part\_000 and basic.js)\<close>

text \<open>
  Both programs own a store and the console; basic.js also owns \<open>prevText\<close>. The only
  function either program subscribes is its \<open>render\<close>.
\<close>

datatype listener = Fn_render

record 'l globals = "'l Store" +
  console :: "string list"

record 'l basic = "'l globals" +
  prevText :: jsval

text \<open>The template literal of \<open>View\<close>: the text between two double quotes.\<close>

definition quoted :: "string \<Rightarrow> string" where
  "quoted text = CHR 0x22 # text @ [CHR 0x22]"

definition View :: "string \<Rightarrow> ('l, 'z) globals_scheme \<Rightarrow> ('l, 'z) globals_scheme" where
  "View text w = w\<lparr>console := console w @ [quoted text]\<rparr>"

text \<open>part\_000, lines 28-31: render on every notification.\<close>

definition render_naive :: "('l, 'z) globals_scheme \<Rightarrow> ('l, 'z) globals_scheme" where
  "render_naive w = (let text = getState w in View text w)"

text \<open>basic.js, lines 30-41: render when the text differs from the one rendered last.\<close>

definition render :: "('l, 'z) basic_scheme \<Rightarrow> ('l, 'z) basic_scheme" where
  "render w =
     (let text = getState w
      in if prevText w \<noteq> Str text then View text (w\<lparr>prevText := Str text\<rparr>) else w)"

definition call_naive :: "listener \<Rightarrow> listener globals \<Rightarrow> listener globals" where
  "call_naive l = (case l of Fn_render \<Rightarrow> render_naive)"

definition call_basic :: "listener \<Rightarrow> listener basic \<Rightarrow> listener basic" where
  "call_basic l = (case l of Fn_render \<Rightarrow> render)"

text \<open>The two programs once their top level has run up to \<open>store.subscribe(render)\<close>.\<close>

definition part_000 :: "listener globals" where
  "part_000 =
     subscribe Fn_render \<lparr>currentState = initialState, currentListeners = [], console = []\<rparr>"

definition basic_js :: "listener basic" where
  "basic_js =
     subscribe Fn_render
       \<lparr>currentState = initialState, currentListeners = [], console = [], prevText = Undefined\<rparr>"

section \<open>The connector (react/connect.js) and its use (part\_001)\<close>

text \<open>
  The objects handled by the connector (props, the component's state, its actions, the
  context) map names to values: a primitive, the store, or one of the functions that the
  constructor of a connected component puts in \<open>this.actions\<close>. Such a function closes over
  the instance's store and over a key of \<open>actionsToDispatch\<close>; it is kept as the pair of the
  instance and the key, and \<open>invoke\<close> below says what calling it does.
\<close>

datatype propval = Val jsval | StoreObj | Bound nat string

type_synonym object = "string \<rightharpoonup> propval"

datatype error = TypeError

text \<open>
  \<open>connect(ComponentToConnect, mapState, actionsToDispatch)\<close> returns a class that closes
  over its three parameters. The wrapped component is known by its name only; an object of
  action creators is the list of its entries, read by key.
\<close>

record ConnectedClass =
  ComponentToConnect :: string
  mapState :: "string \<Rightarrow> object"
  actionsToDispatch :: "(string \<times> (jsval list \<Rightarrow> Action)) list"

definition connect ::
  "string \<Rightarrow> (string \<Rightarrow> object) \<Rightarrow> (string \<times> (jsval list \<Rightarrow> Action)) list \<Rightarrow> ConnectedClass" where
  "connect component mapSt actions =
     \<lparr>ComponentToConnect = component, mapState = mapSt, actionsToDispatch = actions\<rparr>"

text \<open>
  An instance of the class: \<open>this.props\<close>, \<open>this.state\<close>, \<open>this.actions\<close>, and the flag that
  the function returned by \<open>store.subscribe\<close> keeps so that a second call does nothing.
\<close>

record component =
  cls :: ConnectedClass
  props :: object
  state :: object
  actions :: object
  isSubscribed :: bool

text \<open>
  The application owns the store and the instances made so far; an instance is referred to
  by its position, and the listener it subscribes is referred to by the same number.
\<close>

record app = "nat Store" +
  instances :: "component list"

text \<open>
  \<open>setState\<close> of React merges the given object into \<open>this.state\<close>, key by key. The update
  is applied at once, as React does for a call that does not come from one of its own event
  handlers (the keyboard listener of the view is attached to the document directly).
\<close>

definition setState :: "object \<Rightarrow> component \<Rightarrow> component" where
  "setState partial c = c\<lparr>state := state c ++ partial\<rparr>"

text \<open>
  connect.js, lines 17-24: the listener subscribed by the instance \<open>this\<close>. A listener
  exists only once its instance does; for a number that refers to no instance the model
  changes nothing.
\<close>

definition call_app :: "nat \<Rightarrow> app \<Rightarrow> app" where
  "call_app this w =
     (if this < length (instances w)
      then let c = instances w ! this
           in w\<lparr>instances := (instances w)[this := setState (mapState (cls c) (getState w)) c]\<rparr>
      else w)"

text \<open>
  connect.js, lines 5-35. The store is read from the context: \<open>context.store\<close> is
  \<open>undefined\<close> unless an enclosing provider supplies it, and calling \<open>getState\<close> on anything
  but the store raises a TypeError before the constructor has changed anything.
\<close>

definition constructor :: "ConnectedClass \<Rightarrow> object \<Rightarrow> object \<Rightarrow> app \<Rightarrow> error + nat \<times> app" where
  "constructor C properties context w =
     (case context ''store'' of
        Some StoreObj \<Rightarrow>
          (let this = length (instances w);
               st = mapState C (getState w);
               w1 = subscribe this w;
               acts = foldl (\<lambda>m action. m(action \<mapsto> Bound this action)) Map.empty
                        (map fst (actionsToDispatch C))
           in Inr (this, w1\<lparr>instances := instances w1 @
                 [\<lparr>cls = C, props = properties, state = st, actions = acts,
                   isSubscribed = True\<rparr>]\<rparr>))
      | _ \<Rightarrow> Inl TypeError)"

text \<open>connect.js, lines 29-33: calling a function stored in \<open>this.actions\<close>.\<close>

definition invoke :: "propval \<Rightarrow> jsval list \<Rightarrow> app \<Rightarrow> error + app" where
  "invoke f args w =
     (case f of
        Bound this action \<Rightarrow>
          (if this < length (instances w)
           then (case map_of (actionsToDispatch (cls (instances w ! this))) action of
                   Some creator \<Rightarrow> Inr (dispatch call_app (creator args) w)
                 | None \<Rightarrow> Inl TypeError)
           else Inl TypeError)
      | _ \<Rightarrow> Inl TypeError)"

text \<open>connect.js, lines 37-40.\<close>

definition componentWillUnmount :: "nat \<Rightarrow> app \<Rightarrow> app" where
  "componentWillUnmount this w =
     (if this < length (instances w) \<and> isSubscribed (instances w ! this)
      then (unsubscribe this w)
             \<lparr>instances := (instances w)[this := (instances w ! this)\<lparr>isSubscribed := False\<rparr>]\<rparr>
      else w)"

text \<open>
  The JSX of connect.js, line 47, is a call of \<open>React.createElement\<close> on the wrapped
  component and on the object that the three spreads build. \<open>createElement\<close> copies the
  entries of that object into the props of the element, except those under the four names
  it reserves for the element itself: \<open>key\<close> and \<open>ref\<close> become the key and the ref of the
  element, and none of the four is passed to the component as a prop. The wrapped component
  is known by its name and declares no default props, as the view of part\_001; the element
  is kept as that name and the props.
\<close>

definition RESERVED_PROPS :: "string list" where
  "RESERVED_PROPS = [''key'', ''ref'', ''__self'', ''__source'']"

definition createElement :: "string \<Rightarrow> object \<Rightarrow> string \<times> object" where
  "createElement component config =
     (component, \<lambda>propName. if propName \<in> set RESERVED_PROPS then None else config propName)"

text \<open>
  connect.js, lines 42-48: the element returned by \<open>render\<close>. A later spread overrides an
  earlier one.
\<close>

definition render_connected :: "component \<Rightarrow> string \<times> object" where
  "render_connected c =
     createElement (ComponentToConnect (cls c)) (props c ++ state c ++ actions c)"

text \<open>
  rendering.md, lines 419-437: the provider hands the store it got as a prop to the
  components below it.
\<close>

definition getChildContext :: "object \<Rightarrow> object" where
  "getChildContext properties =
     [''store'' \<mapsto> (case properties ''store'' of Some v \<Rightarrow> v | None \<Rightarrow> Val Undefined)]"

text \<open>
  part\_001, lines 74-92: the view is connected with \<open>state => ({ text: state })\<close> and the
  two action creators, and mounted with the store as a prop and no provider above it.
  A creator called with a list of arguments takes the first as its parameter, \<open>undefined\<close>
  when there is none.
\<close>

definition arg :: "nat \<Rightarrow> jsval list \<Rightarrow> jsval" where
  "arg i args = (if i < length args then args ! i else Undefined)"

definition mapState_view :: "string \<Rightarrow> object" where
  "mapState_view st = [''text'' \<mapsto> Val (Str st)]"

definition actions_view :: "(string \<times> (jsval list \<Rightarrow> Action)) list" where
  "actions_view =
     [(''insertCharacter'', \<lambda>args. insertCharacter (arg 0 args)),
      (''removeCharacter'', \<lambda>args. removeCharacter)]"

definition ConnectedComponent :: ConnectedClass where
  "ConnectedComponent = connect ''View'' mapState_view actions_view"

text \<open>
  Modelled from the spec: the store that part\_001 imports from the module \<open>./store\<close>, which
  is not among the sources: the store of section 4.1 with the reducer above, freshly
  created, before any component is made.
\<close>

definition store_js :: app where
  "store_js = \<lparr>currentState = initialState, currentListeners = [], instances = []\<rparr>"

definition part_001 :: "error + nat \<times> app" where
  "part_001 = constructor ConnectedComponent [''store'' \<mapsto> StoreObj] Map.empty store_js"

text \<open>
  rendering.md, lines 493-498: the same component mounted below a provider of the store,
  with no prop of its own.
\<close>

definition provided :: "error + nat \<times> app" where
  "provided =
     constructor ConnectedComponent Map.empty (getChildContext [''store'' \<mapsto> StoreObj]) store_js"

section \<open>The net effect of a sequence of edits\<close>

text \<open>
  The specification's reading of a sequence of the two known actions: a typed character is
  appended, a backspace deletes the last character.
\<close>

datatype edit = Typed string | Backspace

fun apply_edit :: "string \<Rightarrow> edit \<Rightarrow> string" where
  "apply_edit s (Typed c) = s @ c"
| "apply_edit s Backspace = butlast s"

definition net_effect :: "edit list \<Rightarrow> string" where
  "net_effect es = foldl apply_edit [] es"

definition edit_of :: "Action \<Rightarrow> edit option" where
  "edit_of a =
     (if type a = ''CHARACTER_TYPED'' then Some (Typed (ToString (char a)))
      else if type a = ''BACKSPACE'' then Some Backspace
      else None)"

text \<open>
  A selector that returns no key for the empty text, used to show what the merge of
  \<open>setState\<close> keeps.
\<close>

definition mapState_nonempty :: "string \<Rightarrow> object" where
  "mapState_nonempty st = (if st = [] then Map.empty else [''text'' \<mapsto> Val (Str st)])"

definition stale_mount :: "error + nat \<times> app" where
  "stale_mount =
     constructor (connect ''View'' mapState_nonempty []) Map.empty
       (getChildContext [''store'' \<mapsto> StoreObj]) store_js"

definition stale_run :: app where
  "stale_run =
     run call_app
       [insertCharacter (Str ''a''), \<lparr>type = ''BACKSPACE'', char = Undefined\<rparr>]
       (snd (projr stale_mount))"

text \<open>
  An instance whose parent passes props that collide with the derived state and with an
  action: the component of part\_001 below a provider, after \<open>H\<close> has been typed.
\<close>

definition collisions :: component where
  "collisions =
     instances
       (dispatch call_app (insertCharacter (Str ''H''))
          (snd (projr (constructor ConnectedComponent
             [''title'' \<mapsto> Val (Str ''t''), ''text'' \<mapsto> Val (Str ''parent''),
              ''insertCharacter'' \<mapsto> Val Undefined]
             (getChildContext [''store'' \<mapsto> StoreObj]) store_js)))) ! 0"

text \<open>
  A connected component whose selector and whose action bindings both use the name \<open>key\<close>:
  \<open>connect(View, state => ({ key: state }), { key: removeCharacter })\<close>, mounted below a
  provider.
\<close>

definition mapState_keyed :: "string \<Rightarrow> object" where
  "mapState_keyed st = [''key'' \<mapsto> Val (Str st)]"

definition keyed :: component where
  "keyed =
     instances
       (snd (projr (constructor
          (connect ''View'' mapState_keyed [(''key'', \<lambda>args. removeCharacter)]) Map.empty
          (getChildContext [''store'' \<mapsto> StoreObj]) store_js))) ! 0"

section \<open>The reducer\<close>

lemma initialState_empty: "initialState = []"
  by (simp add: initialState_def reducer_def)

lemma substr_butlast: "substr s 0 (int (length s) - 1) = butlast s"
  by (cases s rule: rev_cases) (simp_all add: substr_def Let_def min_def max_def)

lemma reducer_edit: "edit_of a = Some e \<Longrightarrow> reducer (Some s) a = apply_edit s e"
  by (auto simp: edit_of_def reducer_def substr_butlast split: if_splits)

lemma fold_reducer_edits:
  "map edit_of as = map Some es \<Longrightarrow>
   foldl (\<lambda>s a. reducer (Some s) a) s as = foldl apply_edit s es"
proof (induction as arbitrary: s es)
  case Nil
  then show ?case by simp
next
  case (Cons a as)
  then obtain e es' where es: "es = e # es'" "edit_of a = Some e" "map edit_of as = map Some es'"
    by (cases es) auto
  then show ?case using Cons.IH [of es'] by (simp add: reducer_edit)
qed

text \<open>
  Every sequence of actions of the two known types reads as a list of edits, so the
  hypothesis of the next theorem leaves none of them out.
\<close>

lemma known_actions_edits:
  "\<forall>a \<in> set as. type a = ''CHARACTER_TYPED'' \<or> type a = ''BACKSPACE'' \<Longrightarrow>
   \<exists>es. map edit_of as = map Some es"
proof (induction as)
  case Nil
  then show ?case by simp
next
  case (Cons a as)
  then obtain es where "map edit_of as = map Some es" by auto
  moreover from Cons.prems obtain e where "edit_of a = Some e"
    by (auto simp: edit_of_def)
  ultimately have "map edit_of (a # as) = map Some (e # es)" by simp
  then show ?case by blast
qed

text \<open>
  Claim C2. For every sequence of actions whose types are only \<open>CHARACTER_TYPED\<close> and
  \<open>BACKSPACE\<close> (the sequence reads as a list of edits), folding the reducer from the
  initial empty string gives the net effect of the edits: each typed character is appended,
  each backspace deletes the last character. The actions \<open>CHARACTER_TYPED 'a'\<close>,
  \<open>CHARACTER_TYPED 'b'\<close>, \<open>BACKSPACE\<close> give \<open>"a"\<close>.
\<close>

theorem reducer_net_effect:
  "map edit_of as = map Some es \<Longrightarrow>
   foldl (\<lambda>s a. reducer (Some s) a) initialState as = net_effect es"
  by (simp add: fold_reducer_edits net_effect_def initialState_empty)

theorem reducer_net_effect_witness:
  "map edit_of
     [insertCharacter (Str ''a''), insertCharacter (Str ''b''),
      \<lparr>type = ''BACKSPACE'', char = Undefined\<rparr>]
     = map Some [Typed ''a'', Typed ''b'', Backspace] \<and>
   foldl (\<lambda>s a. reducer (Some s) a) initialState
     [insertCharacter (Str ''a''), insertCharacter (Str ''b''),
      \<lparr>type = ''BACKSPACE'', char = Undefined\<rparr>] = ''a'' \<and>
   net_effect [Typed ''a'', Typed ''b'', Backspace] = ''a''"
proof -
  have h: "map edit_of
     [insertCharacter (Str ''a''), insertCharacter (Str ''b''),
      \<lparr>type = ''BACKSPACE'', char = Undefined\<rparr>]
     = map Some [Typed ''a'', Typed ''b'', Backspace]"
    by (simp add: edit_of_def insertCharacter_def ToString_def)
  have n: "net_effect [Typed ''a'', Typed ''b'', Backspace] = ''a''"
    by (simp add: net_effect_def)
  show ?thesis using h n reducer_net_effect [OF h] by simp
qed

text \<open>
  Claim C3. For every state string and every action whose type is neither
  \<open>CHARACTER_TYPED\<close> nor \<open>BACKSPACE\<close>, the reducer returns the state it was given. A
  string is a primitive value, so the same value is the same string for \<open>===\<close>.
\<close>

theorem reducer_unknown_identity:
  "type a \<noteq> ''CHARACTER_TYPED'' \<Longrightarrow> type a \<noteq> ''BACKSPACE'' \<Longrightarrow> reducer (Some s) a = s"
  by (simp add: reducer_def)

theorem reducer_unknown_identity_witness:
  "type \<lparr>type = ''RANDOM'', char = Undefined\<rparr> \<noteq> ''CHARACTER_TYPED'' \<and>
   type \<lparr>type = ''RANDOM'', char = Undefined\<rparr> \<noteq> ''BACKSPACE'' \<and>
   reducer (Some ''This '') \<lparr>type = ''RANDOM'', char = Undefined\<rparr> = ''This ''"
  using reducer_unknown_identity [of "\<lparr>type = ''RANDOM'', char = Undefined\<rparr>" "''This ''"]
  by simp

text \<open>
  Claim C8. A \<open>BACKSPACE\<close> on the empty string returns the empty string: \<open>substr\<close> clamps
  the length \<open>-1\<close> to 0 and raises nothing. The same holds when the state is \<open>undefined\<close>
  and the default applies.
\<close>

theorem reducer_backspace_empty:
  "reducer (Some []) \<lparr>type = ''BACKSPACE'', char = c\<rparr> = [] \<and>
   reducer None \<lparr>type = ''BACKSPACE'', char = c\<rparr> = []"
  by (simp add: reducer_def substr_def)

section \<open>The two console renderers\<close>

lemma getState_basic_fields [simp]:
  "getState (w\<lparr>prevText := p\<rparr>) = getState w"
  "getState (w\<lparr>console := c\<rparr>) = getState w"
  by (simp_all add: getState_def)

lemma dispatch_basic:
  "currentListeners w = [Fn_render] \<Longrightarrow>
   dispatch call_basic a w = render (w\<lparr>currentState := reducer (Some (currentState w)) a\<rparr>)"
  by (simp add: dispatch_def call_basic_def Let_def)

lemma dispatch_naive:
  "currentListeners w = [Fn_render] \<Longrightarrow>
   dispatch call_naive a w = render_naive (w\<lparr>currentState := reducer (Some (currentState w)) a\<rparr>)"
  by (simp add: dispatch_def call_naive_def Let_def)

lemma dispatch_basic_store:
  assumes "currentListeners w = [Fn_render]"
  shows "currentListeners (dispatch call_basic a w) = [Fn_render]"
    and "getState (dispatch call_basic a w) = reducer (Some (currentState w)) a"
    and "prevText (dispatch call_basic a w) = Str (getState (dispatch call_basic a w))"
  using assms by (auto simp: dispatch_basic render_def View_def getState_def Let_def)

lemma dispatch_basic_console:
  assumes "currentListeners w = [Fn_render]"
  shows "console (dispatch call_basic a w) =
         (if prevText w = Str (getState (dispatch call_basic a w)) then console w
          else console w @ [quoted (getState (dispatch call_basic a w))])"
  using assms by (auto simp: dispatch_basic render_def View_def getState_def Let_def)

lemma dispatch_naive_store:
  assumes "currentListeners w = [Fn_render]"
  shows "currentListeners (dispatch call_naive a w) = [Fn_render]"
    and "getState (dispatch call_naive a w) = reducer (Some (currentState w)) a"
    and "console (dispatch call_naive a w) = console w @ [quoted (getState (dispatch call_naive a w))]"
  using assms by (auto simp: dispatch_naive render_naive_def View_def getState_def Let_def)

lemma run_Cons: "run call (a # as) w = run call as (dispatch call a w)"
  by (simp add: run_def)

lemma run_snoc: "run call (as @ [a]) w = dispatch call a (run call as w)"
  by (simp add: run_def)

lemma run_basic_listeners:
  "currentListeners w = [Fn_render] \<Longrightarrow> currentListeners (run call_basic as w) = [Fn_render]"
  by (induction as arbitrary: w) (simp_all add: run_def dispatch_basic_store)

lemma remdups_adj_head: "\<exists>ys. remdups_adj (x # xs) = x # ys"
  by (metis remdups_adj_Cons_alt)

lemma run_basic_cached:
  "currentListeners w = [Fn_render] \<Longrightarrow> prevText w = Str p \<Longrightarrow>
   console (run call_basic as w) =
     console w @ map quoted (tl (remdups_adj (p # history call_basic w as)))"
proof (induction as arbitrary: w p)
  case Nil
  then show ?case by (simp add: run_def)
next
  case (Cons a as)
  let ?w = "dispatch call_basic a w"
  let ?s = "getState ?w"
  have l: "currentListeners ?w = [Fn_render]" and p: "prevText ?w = Str ?s"
    using Cons.prems by (simp_all add: dispatch_basic_store)
  obtain ys where ys: "remdups_adj (?s # history call_basic ?w as) = ?s # ys"
    using remdups_adj_head [of ?s "history call_basic ?w as"] by auto
  have ih: "console (run call_basic as ?w) = console ?w @ map quoted ys"
    using Cons.IH [OF l p] ys by simp
  have c: "console ?w = (if p = ?s then console w else console w @ [quoted ?s])"
    using Cons.prems by (simp add: dispatch_basic_console)
  show ?case
  proof (cases "p = ?s")
    case True
    then show ?thesis using ih c ys by (simp add: run_Cons)
  next
    case False
    then show ?thesis using ih c ys by (simp add: run_Cons)
  qed
qed

lemma run_basic_fresh:
  assumes l: "currentListeners w = [Fn_render]" and u: "prevText w = Undefined"
  shows "console (run call_basic as w) =
         console w @ map quoted (remdups_adj (history call_basic w as))"
proof (cases as)
  case Nil
  then show ?thesis by (simp add: run_def)
next
  case (Cons a as')
  let ?w = "dispatch call_basic a w"
  let ?s = "getState ?w"
  have l': "currentListeners ?w = [Fn_render]" and p: "prevText ?w = Str ?s"
    using l by (simp_all add: dispatch_basic_store)
  have c: "console ?w = console w @ [quoted ?s]"
    using l u by (simp add: dispatch_basic_console)
  obtain ys where ys: "remdups_adj (?s # history call_basic ?w as') = ?s # ys"
    using remdups_adj_head [of ?s "history call_basic ?w as'"] by auto
  have "console (run call_basic as' ?w) = console ?w @ map quoted ys"
    using run_basic_cached [OF l' p, of as'] ys by simp
  then show ?thesis using Cons c ys by (simp add: run_Cons)
qed

lemma run_naive_console:
  "currentListeners w = [Fn_render] \<Longrightarrow>
   console (run call_naive as w) = console w @ map quoted (history call_naive w as)"
  by (induction as arbitrary: w) (simp_all add: run_def dispatch_naive_store)

lemma history_same:
  "currentListeners w = [Fn_render] \<Longrightarrow> currentListeners v = [Fn_render] \<Longrightarrow>
   currentState w = currentState v \<Longrightarrow>
   history call_basic w as = history call_naive v as"
proof (induction as arbitrary: w v)
  case Nil
  then show ?case by simp
next
  case (Cons a as)
  have "history call_basic (dispatch call_basic a w) as = history call_naive (dispatch call_naive a v) as"
    using Cons.prems
    by (intro Cons.IH) (simp_all add: dispatch_basic_store dispatch_naive_store getState_def [symmetric])
  then show ?case using Cons.prems by (simp add: dispatch_basic_store dispatch_naive_store)
qed

lemma basic_js_fields:
  "currentListeners basic_js = [Fn_render]" "prevText basic_js = Undefined"
  "console basic_js = []" "currentState basic_js = initialState"
  by (simp_all add: basic_js_def subscribe_def)

lemma part_000_fields:
  "currentListeners part_000 = [Fn_render]"
  "console part_000 = []" "currentState part_000 = initialState"
  by (simp_all add: part_000_def subscribe_def)

lemma inj_quoted: "inj quoted"
  by (rule injI) (simp add: quoted_def)

text \<open>
  Claim C4. For every sequence of dispatched actions, the lines written by the
  change-detecting renderer of basic.js are the lines written by the renderer of part\_000,
  which renders on every notification, with consecutive duplicates removed.
\<close>

theorem change_detecting_refines_naive:
  "console (run call_basic as basic_js) = remdups_adj (console (run call_naive as part_000))"
proof -
  have "history call_basic basic_js as = history call_naive part_000 as"
    by (rule history_same) (simp_all add: basic_js_fields part_000_fields)
  then show ?thesis
    by (simp add: run_basic_fresh run_naive_console basic_js_fields part_000_fields
        remdups_adj_map_injective inj_quoted)
qed

text \<open>
  Claim C1. For every sequence of dispatched actions, the change-detecting renderer calls
  \<open>View\<close> once for each run of equal consecutive state values: the console holds the
  states reached after each dispatch with consecutive duplicates removed. When a dispatch
  leaves the state of the previous dispatch unchanged, \<open>View\<close> is not called; otherwise it
  is called once, with the new state. \<open>CHARACTER_TYPED 'a'\<close> followed by an unknown action
  writes one line.
\<close>

theorem render_once_per_distinct_state:
  "console (run call_basic as basic_js) =
     map quoted (remdups_adj (history call_basic basic_js as)) \<and>
   (as \<noteq> [] \<longrightarrow>
      console (run call_basic (as @ [a]) basic_js) =
        (if getState (run call_basic (as @ [a]) basic_js) = getState (run call_basic as basic_js)
         then console (run call_basic as basic_js)
         else console (run call_basic as basic_js) @
                [quoted (getState (run call_basic (as @ [a]) basic_js))]))"
proof (intro conjI impI)
  show "console (run call_basic as basic_js) =
          map quoted (remdups_adj (history call_basic basic_js as))"
    by (simp add: run_basic_fresh basic_js_fields)
next
  assume "as \<noteq> []"
  then obtain bs b where as: "as = bs @ [b]"
    by (cases as rule: rev_cases) auto
  let ?v = "run call_basic bs basic_js"
  let ?w = "run call_basic as basic_js"
  have lv: "currentListeners ?v = [Fn_render]"
    by (simp add: run_basic_listeners basic_js_fields)
  have w: "?w = dispatch call_basic b ?v"
    by (simp add: as run_snoc)
  have lw: "currentListeners ?w = [Fn_render]" and pw: "prevText ?w = Str (getState ?w)"
    using lv by (simp_all add: w dispatch_basic_store)
  show "console (run call_basic (as @ [a]) basic_js) =
        (if getState (run call_basic (as @ [a]) basic_js) = getState ?w then console ?w
         else console ?w @ [quoted (getState (run call_basic (as @ [a]) basic_js))])"
    using dispatch_basic_console [OF lw, of a] pw by (auto simp: run_snoc)
qed

lemmas eval_basic =
  run_def dispatch_def call_basic_def render_def View_def getState_def basic_js_def
  subscribe_def initialState_def reducer_def substr_def insertCharacter_def ToString_def Let_def

theorem render_once_per_distinct_state_witness:
  "[insertCharacter (Str ''a'')] \<noteq> [] \<and>
   console (run call_basic [insertCharacter (Str ''a''), \<lparr>type = ''RANDOM'', char = Undefined\<rparr>]
      basic_js) = [quoted ''a'']"
  using render_once_per_distinct_state
    [of "[insertCharacter (Str ''a'')]" "\<lparr>type = ''RANDOM'', char = Undefined\<rparr>"]
  by (simp add: eval_basic)

text \<open>
  Claim C9. The cache \<open>prevText\<close> starts as \<open>undefined\<close>, which differs from every string,
  so the first dispatch always calls \<open>View\<close>, once, with the state it finds; when the first
  action is not recognised, that state is the unchanged empty string.
\<close>

theorem first_notification_renders:
  "prevText basic_js = Undefined \<and> (\<forall>s. prevText basic_js \<noteq> Str s) \<and>
   console (dispatch call_basic a basic_js) = [quoted (getState (dispatch call_basic a basic_js))] \<and>
   (type a \<noteq> ''CHARACTER_TYPED'' \<and> type a \<noteq> ''BACKSPACE'' \<longrightarrow>
      console (dispatch call_basic a basic_js) = [quoted []])"
  by (simp add: eval_basic)

theorem first_notification_renders_witness:
  "type \<lparr>type = ''RANDOM'', char = Undefined\<rparr> \<noteq> ''CHARACTER_TYPED'' \<and>
   type \<lparr>type = ''RANDOM'', char = Undefined\<rparr> \<noteq> ''BACKSPACE'' \<and>
   console (dispatch call_basic \<lparr>type = ''RANDOM'', char = Undefined\<rparr> basic_js) = [quoted []]"
  using first_notification_renders [of "\<lparr>type = ''RANDOM'', char = Undefined\<rparr>"]
  by (simp add: eval_basic)

section \<open>The connector\<close>

lemma call_app_store:
  "currentState (call_app l w) = currentState w"
  "currentListeners (call_app l w) = currentListeners w"
  "length (instances (call_app l w)) = length (instances w)"
  by (simp_all add: call_app_def Let_def)

lemma call_app_instance:
  "i < length (instances w) \<Longrightarrow>
   instances (call_app l w) ! i =
     (if l = i then setState (mapState (cls (instances w ! i)) (getState w)) (instances w ! i)
      else instances w ! i)"
  by (simp add: call_app_def Let_def)

lemma setState_fields:
  "cls (setState m c) = cls c" "props (setState m c) = props c"
  "actions (setState m c) = actions c" "state (setState m c) = state c ++ m"
  by (simp_all add: setState_def)

lemma map_add_twice: "(m ++ n) ++ n = m ++ n"
  by (rule ext) (simp add: map_add_def split: option.splits)

lemma setState_twice: "setState m (setState m c) = setState m c"
  by (simp add: setState_def map_add_twice)

lemma notify_store:
  "currentState (foldl (\<lambda>v l. call_app l v) w ls) = currentState w"
  "currentListeners (foldl (\<lambda>v l. call_app l v) w ls) = currentListeners w"
  "length (instances (foldl (\<lambda>v l. call_app l v) w ls)) = length (instances w)"
  by (induction ls arbitrary: w) (simp_all add: call_app_store)

lemma notify_instance:
  "i < length (instances w) \<Longrightarrow>
   instances (foldl (\<lambda>v l. call_app l v) w ls) ! i =
     (if i \<in> set ls then setState (mapState (cls (instances w ! i)) (getState w)) (instances w ! i)
      else instances w ! i)"
proof (induction ls arbitrary: w rule: rev_induct)
  case Nil
  then show ?case by simp
next
  case (snoc l ls)
  let ?v = "foldl (\<lambda>v l. call_app l v) w ls"
  have len: "i < length (instances ?v)" using snoc.prems by (simp add: notify_store)
  have st: "getState ?v = getState w" by (simp add: getState_def notify_store)
  show ?case
    using snoc.IH [OF snoc.prems] call_app_instance [OF len, of l]
    by (auto simp: st setState_fields setState_twice)
qed

lemma dispatch_app_store:
  "currentState (dispatch call_app a w) = reducer (Some (currentState w)) a"
  "currentListeners (dispatch call_app a w) = currentListeners w"
  "length (instances (dispatch call_app a w)) = length (instances w)"
  by (simp_all add: dispatch_def Let_def notify_store)

lemma dispatch_app_instance:
  assumes "i < length (instances w)"
  shows "instances (dispatch call_app a w) ! i =
     (if i \<in> set (currentListeners w)
      then setState (mapState (cls (instances w ! i)) (getState (dispatch call_app a w))) (instances w ! i)
      else instances w ! i)"
proof -
  let ?w = "w\<lparr>currentState := reducer (Some (currentState w)) a\<rparr>"
  have "i < length (instances ?w)" using assms by simp
  from notify_instance [OF this, of "currentListeners ?w"]
  show ?thesis by (simp add: dispatch_def Let_def getState_def notify_store)
qed

lemma run_app_store:
  "currentListeners (run call_app as w) = currentListeners w"
  "length (instances (run call_app as w)) = length (instances w)"
  by (induction as arbitrary: w) (simp_all add: run_def dispatch_app_store)

lemma run_app_cls:
  "i < length (instances w) \<Longrightarrow> cls (instances (run call_app as w) ! i) = cls (instances w ! i)"
proof (induction as arbitrary: w)
  case Nil
  then show ?case by (simp add: run_def)
next
  case (Cons a as)
  have "i < length (instances (dispatch call_app a w))"
    using Cons.prems by (simp add: dispatch_app_store)
  from Cons.IH [OF this] show ?case
    using Cons.prems by (simp add: run_def dispatch_app_instance setState_fields)
qed

lemma constructor_Inr:
  assumes "constructor C properties context w = Inr (this, w')"
  shows "this = length (instances w)"
    and "instances w' = instances w @
           [\<lparr>cls = C, props = properties, state = mapState C (getState w),
             actions = foldl (\<lambda>m action. m(action \<mapsto> Bound this action)) Map.empty
                        (map fst (actionsToDispatch C)),
             isSubscribed = True\<rparr>]"
    and "currentListeners w' = currentListeners w @ [this]"
    and "currentState w' = currentState w"
  using assms
  by (auto simp: constructor_def Let_def subscribe_def
           split: option.splits propval.splits)

lemma constructor_instance:
  assumes "constructor C properties context w = Inr (this, w')"
  shows "this < length (instances w')" "this \<in> set (currentListeners w')"
    "cls (instances w' ! this) = C" "state (instances w' ! this) = mapState C (getState w')"
    "props (instances w' ! this) = properties"
  using constructor_Inr [OF assms] by (simp_all add: getState_def)

lemma map_add_covered: "dom m \<subseteq> dom n \<Longrightarrow> m ++ n = n"
  by (rule ext) (auto simp: map_add_def split: option.splits)

lemma run_app_fixed_keys:
  assumes k: "\<And>s t. dom (mapState C s) = dom (mapState C t)"
    and i: "i < length (instances w)" "i \<in> set (currentListeners w)"
      "cls (instances w ! i) = C" "state (instances w ! i) = mapState C (getState w)"
  shows "state (instances (run call_app as w) ! i) = mapState C (getState (run call_app as w))"
  using i
proof (induction as arbitrary: w)
  case Nil
  then show ?case by (simp add: run_def)
next
  case (Cons a as)
  let ?w = "dispatch call_app a w"
  have 1: "i < length (instances ?w)" "i \<in> set (currentListeners ?w)"
    using Cons.prems by (simp_all add: dispatch_app_store)
  have 2: "cls (instances ?w ! i) = C"
    using Cons.prems by (simp add: dispatch_app_instance setState_fields)
  have "state (instances ?w ! i) = mapState C (getState w) ++ mapState C (getState ?w)"
    using Cons.prems by (simp add: dispatch_app_instance setState_fields)
  then have 3: "state (instances ?w ! i) = mapState C (getState ?w)"
    using k [of "getState w" "getState ?w"] by (simp add: map_add_covered)
  from Cons.IH [OF 1 2 3] show ?case by (simp add: run_def)
qed

lemma run_app_instance:
  assumes "i < length (instances w)" "i \<in> set (currentListeners w)"
  shows "state (instances (run call_app (as @ [a]) w) ! i) =
         state (instances (run call_app as w) ! i) ++
         mapState (cls (instances w ! i)) (getState (run call_app (as @ [a]) w))"
proof -
  let ?v = "run call_app as w"
  have "i < length (instances ?v)" "i \<in> set (currentListeners ?v)"
    "cls (instances ?v ! i) = cls (instances w ! i)"
    using assms by (simp_all add: run_app_store run_app_cls)
  then show ?thesis
    by (simp add: run_def dispatch_app_instance setState_fields)
qed

lemma actions_fold:
  "foldl (\<lambda>m action. m(action \<mapsto> f action)) m0 ks k =
     (if k \<in> set ks then Some (f k) else m0 k)"
  by (induction ks arbitrary: m0) auto

lemma constructor_actions:
  assumes "constructor C properties context w = Inr (this, w')"
  shows "actions (instances w' ! this) k =
     (if k \<in> fst ` set (actionsToDispatch C) then Some (Bound this k) else None)"
  using constructor_Inr [OF assms] by (simp add: actions_fold)

lemmas eval_app =
  constructor_def getChildContext_def store_js_def ConnectedComponent_def connect_def
  mapState_view_def actions_view_def subscribe_def getState_def initialState_def reducer_def
  substr_def insertCharacter_def removeCharacter_def ToString_def arg_def Let_def
  run_def dispatch_def call_app_def setState_def

text \<open>
  Claim C5. The claim asks that the connector given the store as a prop, with no provider,
  reads the state of the store at mount. The constructor of connect.js takes the store from
  the context and never looks at the props: mounted as part\_001 mounts it, it raises a
  TypeError at \<open>store.getState()\<close>, whatever the class and the state of the application.
  Below a provider the same constructor succeeds, reads the state, subscribes, and
  unsubscribes when the component is unmounted.
\<close>

theorem props_threaded_mount_fails:
  "part_001 = Inl TypeError \<and>
   constructor C [''store'' \<mapsto> StoreObj] Map.empty w = Inl TypeError \<and>
   isl provided = False \<and>
   state (instances (snd (projr provided)) ! fst (projr provided)) =
     mapState_view (getState store_js) \<and>
   currentListeners (snd (projr provided)) = [fst (projr provided)] \<and>
   currentListeners (componentWillUnmount (fst (projr provided)) (snd (projr provided))) = []"
  by (simp add: part_001_def provided_def eval_app componentWillUnmount_def unsubscribe_def)

text \<open>
  What the code does to the derived props. The constructor assigns
  \<open>mapState(store.getState())\<close>; every later notification merges the new result of
  \<open>mapState\<close> into them. The two agree after every run of dispatches when \<open>mapState\<close>
  always returns the same keys, as \<open>state => ({ text: state })\<close> does.
\<close>

lemma listener_merges:
  "(constructor C properties context w = Inr (this, w') \<longrightarrow>
      state (instances w' ! this) = mapState C (getState w') \<and>
      state (instances (run call_app (as @ [a]) w') ! this) =
        state (instances (run call_app as w') ! this) ++
        mapState C (getState (run call_app (as @ [a]) w'))) \<and>
   (constructor C properties context w = Inr (this, w') \<and>
    (\<forall>s t. dom (mapState C s) = dom (mapState C t)) \<longrightarrow>
      state (instances (run call_app as w') ! this) =
        mapState C (getState (run call_app as w')))"
proof (intro conjI impI)
  assume c: "constructor C properties context w = Inr (this, w')"
  show "state (instances w' ! this) = mapState C (getState w')"
    using constructor_instance [OF c] by simp
  show "state (instances (run call_app (as @ [a]) w') ! this) =
        state (instances (run call_app as w') ! this) ++
        mapState C (getState (run call_app (as @ [a]) w'))"
    using constructor_instance [OF c] run_app_instance [of this w' as a] by simp
next
  assume "constructor C properties context w = Inr (this, w') \<and>
          (\<forall>s t. dom (mapState C s) = dom (mapState C t))"
  then have c: "constructor C properties context w = Inr (this, w')"
    and k: "\<And>s t. dom (mapState C s) = dom (mapState C t)" by auto
  show "state (instances (run call_app as w') ! this) = mapState C (getState (run call_app as w'))"
    using constructor_instance [OF c] by (intro run_app_fixed_keys k) simp_all
qed

text \<open>
  Claim C6. The derived props of a connected component should equal
  \<open>mapState(store.getState())\<close> immediately after mount and after every later dispatch, with
  no stale value. The code does not keep this: the constructor assigns the result of
  \<open>mapState\<close>, but the listener hands it to \<open>setState\<close>, which removes nothing. With a
  selector that returns \<open>{ text: state }\<close> for a non-empty text and \<open>{}\<close> for the empty one,
  mounted below a provider, typing \<open>a\<close> and then pressing backspace leaves the store at \<open>""\<close>
  while the derived props still hold \<open>text: "a"\<close>.
\<close>

theorem derived_props_stale:
  "stale_mount = Inr (0, snd (projr stale_mount)) \<and>
   getState stale_run = [] \<and>
   state (instances stale_run ! 0) ''text'' = Some (Val (Str ''a'')) \<and>
   mapState (cls (instances stale_run ! 0)) (getState stale_run) ''text'' = None \<and>
   state (instances stale_run ! 0) \<noteq> mapState (cls (instances stale_run ! 0)) (getState stale_run)"
proof -
  have 1: "stale_mount = Inr (0, snd (projr stale_mount))"
    by (simp add: stale_mount_def eval_app)
  have 2: "getState stale_run = []"
    by (simp add: stale_run_def stale_mount_def eval_app)
  have 3: "state (instances stale_run ! 0) ''text'' = Some (Val (Str ''a''))"
    by (simp add: stale_run_def stale_mount_def eval_app mapState_nonempty_def)
  have 4: "mapState (cls (instances stale_run ! 0)) (getState stale_run) ''text'' = None"
    by (simp add: stale_run_def stale_mount_def eval_app mapState_nonempty_def)
  from 3 4 have "state (instances stale_run ! 0) \<noteq>
      mapState (cls (instances stale_run ! 0)) (getState stale_run)"
    by (metis option.distinct(1))
  with 1 2 3 4 show ?thesis by simp
qed

text \<open>
  Claim C7. For every entry \<open>(name, creator)\<close> of the action bindings given to \<open>connect\<close>,
  the mounted component holds under that name a function which, called with any arguments
  at any later time, dispatches exactly \<open>creator(...args)\<close> to the store. End to end, in
  basic.js: from the empty state \<open>CHARACTER_TYPED 'H'\<close> gives \<open>"H"\<close>, then \<open>BACKSPACE\<close> gives
  \<open>""\<close>, then an unknown action leaves \<open>""\<close> and writes nothing to the console.
\<close>

theorem bound_action_dispatches:
  "(constructor C properties context w = Inr (this, w') \<and>
    map_of (actionsToDispatch C) name = Some creator \<longrightarrow>
      actions (instances w' ! this) name = Some (Bound this name) \<and>
      invoke (Bound this name) args (run call_app as w') =
        Inr (dispatch call_app (creator args) (run call_app as w'))) \<and>
   getState (run call_basic [insertCharacter (Str ''H'')] basic_js) = ''H'' \<and>
   getState (run call_basic
     [insertCharacter (Str ''H''), \<lparr>type = ''BACKSPACE'', char = Undefined\<rparr>] basic_js) = [] \<and>
   getState (run call_basic
     [insertCharacter (Str ''H''), \<lparr>type = ''BACKSPACE'', char = Undefined\<rparr>,
      \<lparr>type = ''UNKNOWN'', char = Undefined\<rparr>] basic_js) = [] \<and>
   console (run call_basic
     [insertCharacter (Str ''H''), \<lparr>type = ''BACKSPACE'', char = Undefined\<rparr>,
      \<lparr>type = ''UNKNOWN'', char = Undefined\<rparr>] basic_js) =
   console (run call_basic
     [insertCharacter (Str ''H''), \<lparr>type = ''BACKSPACE'', char = Undefined\<rparr>] basic_js)"
proof (intro conjI impI)
  assume "constructor C properties context w = Inr (this, w') \<and>
          map_of (actionsToDispatch C) name = Some creator"
  then have c: "constructor C properties context w = Inr (this, w')"
    and n: "map_of (actionsToDispatch C) name = Some creator" by auto
  from n have "(name, creator) \<in> set (actionsToDispatch C)"
    by (rule map_of_SomeD)
  then have "name \<in> fst ` set (actionsToDispatch C)"
    by force
  then show "actions (instances w' ! this) name = Some (Bound this name)"
    by (simp add: constructor_actions [OF c])
  have i: "this < length (instances w')" and k: "cls (instances w' ! this) = C"
    using constructor_instance [OF c] by simp_all
  have "this < length (instances (run call_app as w'))"
    using i by (simp add: run_app_store)
  moreover have "cls (instances (run call_app as w') ! this) = C"
    using i k by (simp add: run_app_cls)
  ultimately show "invoke (Bound this name) args (run call_app as w') =
      Inr (dispatch call_app (creator args) (run call_app as w'))"
    using n by (simp add: invoke_def)
qed (simp_all add: eval_basic)

theorem bound_action_dispatches_witness:
  "provided = Inr (0, snd (projr provided)) \<and>
   map_of (actionsToDispatch ConnectedComponent) ''insertCharacter'' =
     Some (\<lambda>args. insertCharacter (arg 0 args)) \<and>
   actions (instances (snd (projr provided)) ! 0) ''insertCharacter'' =
     Some (Bound 0 ''insertCharacter'') \<and>
   invoke (Bound 0 ''insertCharacter'') [Str ''H''] (snd (projr provided)) =
     Inr (dispatch call_app (insertCharacter (Str ''H'')) (snd (projr provided))) \<and>
   getState (dispatch call_app (insertCharacter (Str ''H'')) (snd (projr provided))) = ''H''"
proof -
  have m: "constructor ConnectedComponent Map.empty (getChildContext [''store'' \<mapsto> StoreObj])
             store_js = Inr (0, snd (projr provided))"
    by (simp add: provided_def eval_app)
  have n: "map_of (actionsToDispatch ConnectedComponent) ''insertCharacter'' =
             Some (\<lambda>args. insertCharacter (arg 0 args))"
    by (simp add: ConnectedComponent_def connect_def actions_view_def)
  have a: "(\<lambda>args. insertCharacter (arg 0 args)) [Str ''H''] = insertCharacter (Str ''H'')"
    by (simp add: arg_def)
  have g: "getState (dispatch call_app (insertCharacter (Str ''H'')) (snd (projr provided))) = ''H''"
    by (simp add: provided_def eval_app)
  show ?thesis
    using m n a g bound_action_dispatches
      [of ConnectedComponent Map.empty "getChildContext [''store'' \<mapsto> StoreObj]" store_js 0
          "snd (projr provided)" "''insertCharacter''" "\<lambda>args. insertCharacter (arg 0 args)"
          "[Str ''H'']" "[]"]
    by (simp add: provided_def run_def)
qed

lemma reserved_names:
  "k \<in> set RESERVED_PROPS \<longleftrightarrow> k = ''key'' \<or> k = ''ref'' \<or> k = ''__self'' \<or> k = ''__source''"
  by (auto simp: RESERVED_PROPS_def)

lemmas eval_keyed =
  keyed_def mapState_keyed_def constructor_def getChildContext_def store_js_def connect_def
  subscribe_def getState_def initialState_def reducer_def Let_def

text \<open>
  Claim C10 as stated fails at the names React reserves. For the component connected with
  \<open>state => ({ key: state })\<close> and \<open>{ key: removeCharacter }\<close>, the derived state and the
  actions collide on \<open>key\<close>; the bound action overrides the derived state in the spread, and
  \<open>createElement\<close> then takes the entry as the key of the element: the wrapped component
  receives no prop of that name.
\<close>

theorem reserved_name_not_passed:
  "state keyed ''key'' = Some (Val (Str [])) \<and>
   actions keyed ''key'' = Some (Bound 0 ''key'') \<and>
   (props keyed ++ state keyed ++ actions keyed) ''key'' = Some (Bound 0 ''key'') \<and>
   snd (render_connected keyed) ''key'' = None \<and>
   snd (render_connected keyed) ''key'' \<noteq> actions keyed ''key''"
  by (simp add: eval_keyed render_connected_def createElement_def RESERVED_PROPS_def)

text \<open>
  Claim C10, as the code has it. The element is of the wrapped component. For every name
  other than the four that React reserves for the element (\<open>key\<close>, \<open>ref\<close>, \<open>__self\<close>,
  \<open>__source\<close>), the wrapped component is given the parent's props, then the derived state,
  then the bound actions: a prop of the parent that neither the state nor the actions name
  is forwarded unchanged, a name of the derived state overrides the parent's prop, and a
  name of the actions overrides both. An entry under a reserved name is not passed as a
  prop.
\<close>

theorem render_spread_order:
  "fst (render_connected c) = ComponentToConnect (cls c) \<and>
   (k \<notin> set RESERVED_PROPS \<and> k \<notin> dom (state c) \<and> k \<notin> dom (actions c) \<longrightarrow>
      snd (render_connected c) k = props c k) \<and>
   (k \<notin> set RESERVED_PROPS \<and> k \<in> dom (state c) \<and> k \<notin> dom (actions c) \<longrightarrow>
      snd (render_connected c) k = state c k) \<and>
   (k \<notin> set RESERVED_PROPS \<and> k \<in> dom (actions c) \<longrightarrow>
      snd (render_connected c) k = actions c k) \<and>
   (k \<in> set RESERVED_PROPS \<longrightarrow> snd (render_connected c) k = None)"
  by (auto simp: render_connected_def createElement_def map_add_def split: option.splits)

theorem render_spread_order_witness:
  "(''title'' \<notin> set RESERVED_PROPS \<and> ''title'' \<notin> dom (state collisions) \<and>
    ''title'' \<notin> dom (actions collisions)) \<and>
   snd (render_connected collisions) ''title'' = Some (Val (Str ''t'')) \<and>
   (''text'' \<notin> set RESERVED_PROPS \<and> ''text'' \<in> dom (state collisions) \<and>
    ''text'' \<notin> dom (actions collisions)) \<and>
   props collisions ''text'' = Some (Val (Str ''parent'')) \<and>
   snd (render_connected collisions) ''text'' = Some (Val (Str ''H'')) \<and>
   (''insertCharacter'' \<notin> set RESERVED_PROPS \<and> ''insertCharacter'' \<in> dom (actions collisions)) \<and>
   props collisions ''insertCharacter'' = Some (Val Undefined) \<and>
   snd (render_connected collisions) ''insertCharacter'' = Some (Bound 0 ''insertCharacter'') \<and>
   ''key'' \<in> set RESERVED_PROPS \<and>
   snd (render_connected keyed) ''key'' = None"
  using render_spread_order [of collisions "''title''"]
    render_spread_order [of collisions "''text''"]
    render_spread_order [of collisions "''insertCharacter''"]
    render_spread_order [of keyed "''key''"]
  by (simp add: collisions_def eval_app reserved_names)

end
